theory Spec2Isabelle
  imports Complex_Main "HOL-Library.AList"
begin

section \<open>Python strings and values\<close>

text \<open>
  Descriptions, kinds and identifiers are Python \<open>str\<close> values; they are modelled as
  \<open>string\<close> (ASCII text). \<open>lower\<close> is \<open>str.lower\<close> on the ASCII letters and
  \<open>py_in sub s\<close> is the substring test \<open>sub in s\<close>.
\<close>

definition lower_char :: "char \<Rightarrow> char" where
  "lower_char c =
     (case map_of (zip ''ABCDEFGHIJKLMNOPQRSTUVWXYZ'' ''abcdefghijklmnopqrstuvwxyz'') c of
        Some l \<Rightarrow> l
      | None \<Rightarrow> c)"

definition lower :: "string \<Rightarrow> string" where
  "lower s = map lower_char s"

fun startswith :: "string \<Rightarrow> string \<Rightarrow> bool" where
  "startswith s [] = True"
| "startswith [] (p # ps) = False"
| "startswith (c # cs) (p # ps) = (c = p \<and> startswith cs ps)"

fun py_in :: "string \<Rightarrow> string \<Rightarrow> bool" where
  "py_in sub [] = (sub = [])"
| "py_in sub (c # cs) = (startswith (c # cs) sub \<or> py_in sub cs)"

text \<open>
  The payloads the code passes around are typed \<open>Any\<close>. \<open>pyval\<close> is the fragment
  of Python values the program builds (\<open>None\<close>, booleans, numbers, strings, lists and
  string-keyed dicts, in insertion order) together with tuples and sets, which a caller
  may hand in as content and which JSON treats differently. A float is the rational
  number it denotes (infinities and NaN do not occur in the values the program builds).
  Arithmetic on floats rounds: where a statement depends on it (the score of the
  engine's \<open>retrieve\<close>) the rounding is explicit; the elapsed time that an execution
  reports is written as the exact difference of the two clock readings.
\<close>

datatype pyval =
    PNone
  | PBool bool
  | PInt int
  | PFloat rat
  | PStr string
  | PList "pyval list"
  | PTuple "pyval list"
  | PSet "pyval list"
  | PDict "(string \<times> pyval) list"

text \<open>\<open>d.get(k, default)\<close> on a dict value.\<close>

fun dict_get :: "pyval \<Rightarrow> string \<Rightarrow> pyval \<Rightarrow> pyval" where
  "dict_get (PDict kvs) k dflt = (case map_of kvs k of Some v \<Rightarrow> v | None \<Rightarrow> dflt)"
| "dict_get _ k dflt = dflt"

text \<open>Truth value of a Python object, as in \<open>if x:\<close>.\<close>

fun truthy :: "pyval \<Rightarrow> bool" where
  "truthy PNone = False"
| "truthy (PBool b) = b"
| "truthy (PInt i) = (i \<noteq> 0)"
| "truthy (PFloat r) = (r \<noteq> 0)"
| "truthy (PStr s) = (s \<noteq> [])"
| "truthy (PList xs) = (xs \<noteq> [])"
| "truthy (PTuple xs) = (xs \<noteq> [])"
| "truthy (PSet xs) = (xs \<noteq> [])"
| "truthy (PDict kvs) = (kvs \<noteq> [])"

text \<open>\<open>xs[:limit]\<close>: a negative limit counts from the end.\<close>

definition slice_to :: "'a list \<Rightarrow> int \<Rightarrow> 'a list" where
  "slice_to xs limit =
     (if 0 \<le> limit then take (nat limit) xs else take (length xs - nat (- limit)) xs)"

text \<open>
  What \<open>json.dump\<close> followed by \<open>json.load\<close> does to a value: a set is not
  serialisable (\<open>TypeError\<close>), a tuple is written as an array and read back as a list.
\<close>

fun json_ok :: "pyval \<Rightarrow> bool" where
  "json_ok (PSet xs) = False"
| "json_ok (PList xs) = list_all json_ok xs"
| "json_ok (PTuple xs) = list_all json_ok xs"
| "json_ok (PDict kvs) = list_all (\<lambda>kv. json_ok (snd kv)) kvs"
| "json_ok _ = True"

fun json_reload :: "pyval \<Rightarrow> pyval" where
  "json_reload (PList xs) = PList (map json_reload xs)"
| "json_reload (PTuple xs) = PList (map json_reload xs)"
| "json_reload (PDict kvs) = PDict (map (\<lambda>kv. (fst kv, json_reload (snd kv))) kvs)"
| "json_reload v = v"

section \<open>The environment: identifiers, the clock, the persistence file\<close>

text \<open>
  \<open>MemoryItem\<close> of alan\_core/memory.py. It is declared here because the persistence
  file holds its fields.
\<close>

record MemoryItem =
  item_id :: string
  ts :: rat
  kind :: string
  content :: pyval

text \<open>
  The file at \<open>long_term_path\<close>, seen through \<open>json.load\<close>: it does not exist, or
  it does not parse (\<open>Garbage\<close>, which is also what an interrupted \<open>json.dump\<close>
  leaves behind), or it parses to a JSON object. An entry of that object is
  \<open>Wellformed\<close> when \<open>MemoryItem(**v)\<close> accepts it, that is when it is an object with
  exactly the four fields of a MemoryItem.
\<close>

datatype json_entry = Wellformed MemoryItem | Malformed

datatype disk_file = Absent | Garbage | Document "(string \<times> json_entry) list"

text \<open>
  \<open>uuid.uuid4()\<close> and \<open>time.time()\<close> read the outside world. The world holds the
  sequence of identifiers and of clock readings the process will see, how many of
  each it has consumed (a call returns the next one), and the persistence file.
\<close>

record world =
  uuid_seq :: "nat \<Rightarrow> string"
  uuid_calls :: nat
  time_seq :: "nat \<Rightarrow> rat"
  time_calls :: nat
  disk :: disk_file

definition uuid4 :: "world \<Rightarrow> string \<times> world" where
  "uuid4 w = (uuid_seq w (uuid_calls w), w\<lparr>uuid_calls := Suc (uuid_calls w)\<rparr>)"

definition time_time :: "world \<Rightarrow> rat \<times> world" where
  "time_time w = (time_seq w (time_calls w), w\<lparr>time_calls := Suc (time_calls w)\<rparr>)"

text \<open>Exceptions that reach the caller.\<close>

datatype py_error = AttributeError | HookRaised string

section \<open>alan\_core/planner.py\<close>

record Task =
  task_id :: string
  description :: string
  depth :: int
  priority :: int
  metadata :: "(string \<times> pyval) list"

text \<open>
  The input record: a dict in which a key may be missing (\<open>raw\<close> is set by the engine's
  own preprocessing only).
\<close>

record processed_input =
  inp_raw :: "string option"
  inp_intent :: "string option"
  inp_text :: "string option"
  inp_tokens :: "string list"

text \<open>\<open>Task(id=str(uuid.uuid4()), description=d, depth=1, priority=p)\<close>.\<close>

definition new_task :: "string \<Rightarrow> int \<Rightarrow> int \<Rightarrow> world \<Rightarrow> Task \<times> world" where
  "new_task d dp p w =
     (let (u, w') = uuid4 w
      in (\<lparr>task_id = u, description = d, depth = dp, priority = p, metadata = []\<rparr>, w'))"

text \<open>Builds the tasks of a list literal left to right, each drawing its identifier.\<close>

fun new_tasks :: "(string \<times> int \<times> int) list \<Rightarrow> world \<Rightarrow> Task list \<times> world" where
  "new_tasks [] w = ([], w)"
| "new_tasks ((d, dp, p) # r) w =
     (let (t, w') = new_task d dp p w;
          (ts, w'') = new_tasks r w'
      in (t # ts, w''))"

definition decompose :: "Task \<Rightarrow> world \<Rightarrow> Task list \<times> world" where
  "decompose task w =
     (let desc = lower (description task)
      in if py_in ''create'' desc \<or> py_in ''build'' desc then
           new_tasks [(''scaffold project'', 1, 2), (''create core modules'', 1, 3),
                      (''write tests'', 1, 4)] w
         else if py_in ''debug'' desc \<or> py_in ''fix'' desc then
           new_tasks [(''collect logs'', 1, 2), (''reproduce'', 1, 3), (''apply fix'', 1, 4)] w
         else new_tasks [(''analyze'', 1, 5)] w)"

definition plan :: "processed_input \<Rightarrow> world \<Rightarrow> Task list \<times> world" where
  "plan processed w =
     (let intent = (case inp_intent processed of Some i \<Rightarrow> i | None \<Rightarrow> ''general'');
          text = (case inp_text processed of Some t \<Rightarrow> t | None \<Rightarrow> []);
          (u, w') = uuid4 w;
          root = \<lparr>task_id = u, description = intent @ '': '' @ text, depth = 0, priority = 1,
                  metadata = []\<rparr>
      in decompose root w')"

section \<open>alan\_app/alan\_core\_engine.py: Task and Planner\<close>

record ETask =
  etask_id :: string
  edescription :: string
  edepth :: int
  emetadata :: "(string \<times> pyval) list"

definition new_etask :: "string \<Rightarrow> int \<Rightarrow> world \<Rightarrow> ETask \<times> world" where
  "new_etask d dp w =
     (let (u, w') = uuid4 w
      in (\<lparr>etask_id = u, edescription = d, edepth = dp, emetadata = []\<rparr>, w'))"

fun new_etasks :: "(string \<times> int) list \<Rightarrow> world \<Rightarrow> ETask list \<times> world" where
  "new_etasks [] w = ([], w)"
| "new_etasks ((d, dp) # r) w =
     (let (t, w') = new_etask d dp w;
          (ts, w'') = new_etasks r w'
      in (t # ts, w''))"

definition engine_decompose :: "ETask \<Rightarrow> world \<Rightarrow> ETask list \<times> world" where
  "engine_decompose task w =
     (let desc = lower (edescription task)
      in if py_in ''create'' desc \<or> py_in ''build'' desc then
           new_etasks [(''scaffold project structure'', 1), (''create core modules'', 1),
                       (''write basic tests'', 1)] w
         else if py_in ''debug'' desc \<or> py_in ''fix'' desc then
           new_etasks [(''reproduce issue'', 1), (''apply fix'', 1),
                       (''write regression test'', 1)] w
         else new_etasks [(''analyze'', 1), (''respond'', 1)] w)"

definition engine_plan :: "processed_input \<Rightarrow> world \<Rightarrow> ETask list \<times> world" where
  "engine_plan processed w =
     (let intent = (case inp_intent processed of Some i \<Rightarrow> i | None \<Rightarrow> ''general'');
          text = (case inp_text processed of Some t \<Rightarrow> t | None \<Rightarrow> []);
          (u, w') = uuid4 w;
          root = \<lparr>etask_id = u, edescription = ''Handle intent='' @ intent @ '': '' @ text,
                  edepth = 0, emetadata = []\<rparr>
      in engine_decompose root w')"

section \<open>alan\_core/memory.py\<close>

text \<open>
  \<open>Memory.write\<close> stores \<open>asdict(item)\<close>, a dict; \<open>__init__\<close> stores \<open>MemoryItem(**v)\<close>,
  an object. Both kinds of value live in \<open>short\<close> and \<open>long\<close>, so an entry records
  which one it is. \<open>long\<close> is a dict in insertion order: assigning to a key that is
  present replaces its value in place, a new key goes to the end.
\<close>

datatype entry = AsDict MemoryItem | AsObject MemoryItem

record Memory =
  short :: "entry list"
  long :: "(string \<times> entry) list"

text \<open>
  The loop of \<open>__init__\<close> over \<open>data.items()\<close>: the first entry that
  \<open>MemoryItem(**v)\<close> rejects raises, the \<open>except\<close> swallows it, and the entries
  loaded so far stay.
\<close>

fun load_entries :: "(string \<times> json_entry) list \<Rightarrow> (string \<times> entry) list \<Rightarrow> (string \<times> entry) list" where
  "load_entries [] lng = lng"
| "load_entries ((k, Wellformed it) # r) lng = load_entries r (AList.update k (AsObject it) lng)"
| "load_entries ((k, Malformed) # r) lng = lng"

definition Memory_init :: "world \<Rightarrow> Memory" where
  "Memory_init w =
     \<lparr>short = [],
      long = (case disk w of
                Absent \<Rightarrow> []
              | Garbage \<Rightarrow> []
              | Document es \<Rightarrow> load_entries es [])\<rparr>"

text \<open>
  \<open>json.dump(self.long, open(path, "w"), indent=2)\<close> inside \<open>try\<close>: opening
  truncates the file; a value that is a MemoryItem object or holds a set raises
  \<open>TypeError\<close> part-way, which is swallowed and leaves an incomplete document.
\<close>

fun dumpable :: "entry \<Rightarrow> bool" where
  "dumpable (AsDict it) = json_ok (content it)"
| "dumpable (AsObject it) = False"

fun dumped :: "entry \<Rightarrow> json_entry" where
  "dumped (AsDict it) = Wellformed (it\<lparr>content := json_reload (content it)\<rparr>)"
| "dumped (AsObject it) = Malformed"

definition flush :: "Memory \<Rightarrow> world \<Rightarrow> world" where
  "flush mem w =
     w\<lparr>disk := (if list_all (\<lambda>kv. dumpable (snd kv)) (long mem)
                then Document (map (\<lambda>kv. (fst kv, dumped (snd kv))) (long mem))
                else Garbage)\<rparr>"

definition Memory_write :: "string \<Rightarrow> pyval \<Rightarrow> bool \<Rightarrow> Memory \<Rightarrow> world \<Rightarrow> MemoryItem \<times> Memory \<times> world" where
  "Memory_write knd cont long_term mem w =
     (let (u, w1) = uuid4 w;
          (t, w2) = time_time w1;
          item = \<lparr>item_id = u, ts = t, kind = knd, content = cont\<rparr>
      in if long_term then
           (let mem' = mem\<lparr>long := AList.update u (AsDict item) (long mem)\<rparr>
            in (item, mem', flush mem' w2))
         else
           (let s = short mem @ [AsDict item];
                s' = (if length s > 200 then tl s else s)
            in (item, mem\<lparr>short := s'\<rparr>, w2)))"

text \<open>
  The loop of \<open>retrieve\<close>. \<open>i.get("content", "")\<close> is a dict method: on a MemoryItem
  object it raises \<open>AttributeError\<close>. \<open>py_str\<close> is Python's \<open>str\<close> on a value.
\<close>

fun retrieve_loop :: "(pyval \<Rightarrow> string) \<Rightarrow> string \<Rightarrow> entry list \<Rightarrow> entry list \<Rightarrow> py_error + entry list" where
  "retrieve_loop py_str q [] res = Inr res"
| "retrieve_loop py_str q (AsObject it # pool) res = Inl AttributeError"
| "retrieve_loop py_str q (AsDict it # pool) res =
     (if py_in q (lower (py_str (content it))) \<or> py_in q (kind it)
      then retrieve_loop py_str q pool (res @ [AsDict it])
      else retrieve_loop py_str q pool res)"

definition retrieve :: "(pyval \<Rightarrow> string) \<Rightarrow> string option \<Rightarrow> int \<Rightarrow> Memory \<Rightarrow> py_error + entry list" where
  "retrieve py_str q limit mem =
     (let pool = short mem @ map snd (long mem)
      in case q of
           None \<Rightarrow> Inr (slice_to pool limit)
         | Some q0 \<Rightarrow>
             if q0 = [] then Inr (slice_to pool limit)
             else (case retrieve_loop py_str (lower q0) pool [] of
                     Inl e \<Rightarrow> Inl e
                   | Inr res \<Rightarrow> Inr (slice_to res limit)))"

section \<open>alan\_core/worker.py\<close>

text \<open>
  \<open>subprocess.check_output(cmd, shell=True, stderr=STDOUT, timeout=10)\<close> followed by
  \<open>decode("utf-8")\<close> either yields the text or raises (non-zero exit, timeout, OS
  error, undecodable output) an exception \<open>e\<close>, given here by \<open>str(e)\<close>.
\<close>

datatype shell_outcome = Stdout string | ShellRaised string

definition run_shell :: "(string \<Rightarrow> shell_outcome) \<Rightarrow> string \<Rightarrow> pyval" where
  "run_shell check_output cmd =
     (case check_output cmd of
        Stdout out \<Rightarrow> PDict [(''stdout'', PStr out)]
      | ShellRaised msg \<Rightarrow> PDict [(''error'', PStr msg)])"

text \<open>The hook \<open>llm_call\<close>: absent, or a function that returns a payload or raises.\<close>

type_synonym llm_hook = "(string \<Rightarrow> py_error + pyval) option"

text \<open>The \<open>if\<close>/\<open>elif\<close> chain of \<open>execute\<close> that computes \<open>result\<close>.\<close>

definition execute_result :: "llm_hook \<Rightarrow> Task \<Rightarrow> py_error + pyval" where
  "execute_result llm_call task =
     (let desc = lower (description task)
      in if py_in ''scaffold'' desc \<or> py_in ''scaffold project'' desc then
           Inr (PDict [(''files'', PList [PStr ''README.md'', PStr ''src/'', PStr ''alan_core/''])])
         else if py_in ''create core modules'' desc \<or> py_in ''core modules'' desc then
           Inr (PDict [(''modules'',
                        PList [PStr ''planner'', PStr ''worker'', PStr ''memory'', PStr ''io''])])
         else if py_in ''write tests'' desc then
           Inr (PDict [(''tests'', PList [PStr ''test_basic_flow.py''])])
         else if py_in ''collect logs'' desc then
           Inr (PDict [(''logs'', PStr ''no logs (simulated)'')])
         else if py_in ''reproduce'' desc then
           Inr (PDict [(''reproduce'', PBool True)])
         else if py_in ''apply fix'' desc then
           Inr (PDict [(''fixed'', PBool True)])
         else (case llm_call of
                 Some f \<Rightarrow> (case f (description task) of
                              Inl e \<Rightarrow> Inl e
                            | Inr v \<Rightarrow> Inr (PDict [(''llm'', v)]))
               | None \<Rightarrow> Inr (PDict [(''echo'', PStr (description task))])))"

definition execute :: "llm_hook \<Rightarrow> Task \<Rightarrow> Memory \<Rightarrow> world \<Rightarrow> py_error + (pyval \<times> Memory \<times> world)" where
  "execute llm_call task mem w =
     (let (t0, w1) = time_time w
      in case execute_result llm_call task of
           Inl e \<Rightarrow> Inl e
         | Inr result \<Rightarrow>
             (let (item, mem', w2) =
                    Memory_write ''task_result''
                      (PDict [(''task'', PStr (description task)), (''result'', result)])
                      False mem w1;
                  (t1, w3) = time_time w2
              in Inr (PDict [(''task_id'', PStr (task_id task)),
                             (''description'', PStr (description task)),
                             (''result'', result),
                             (''time'', PFloat (t1 - t0))],
                      mem', w3)))"

section \<open>alan\_core/hrm.py\<close>

text \<open>
  The state of one run of the loop: the frontier, the results so far, the memory and
  the world. Both run loops of the repository use it.
\<close>

record ('t, 'm) run_state =
  frontier :: "('t \<times> int) list"
  results :: "pyval list"
  memory :: 'm
  env :: world

text \<open>\<open>x.get(k)\<close> as a method call: a value that is not a dict has no \<open>get\<close>.\<close>

fun py_get :: "pyval \<Rightarrow> string \<Rightarrow> pyval \<Rightarrow> py_error + pyval" where
  "py_get (PDict kvs) k dflt = Inr (dict_get (PDict kvs) k dflt)"
| "py_get _ k dflt = Inl AttributeError"

definition skipped_marker :: "string \<Rightarrow> pyval" where
  "skipped_marker d = PDict [(''task'', PStr d), (''skipped'', PBool True)]"

text \<open>\<open>res.get("result", {}).get("fixed")\<close>.\<close>

definition result_fixed :: "pyval \<Rightarrow> py_error + pyval" where
  "result_fixed res =
     (case py_get res ''result'' (PDict []) of
        Inl e \<Rightarrow> Inl e
      | Inr r \<Rightarrow> py_get r ''fixed'' PNone)"

text \<open>One iteration of the \<open>while frontier:\<close> loop of \<open>HRM.run\<close>.\<close>

definition hrm_body :: "int \<Rightarrow> llm_hook \<Rightarrow> (Task, Memory) run_state \<Rightarrow> py_error + (Task, Memory) run_state" where
  "hrm_body max_depth llm_call s =
     (case frontier s of
        [] \<Rightarrow> Inr s
      | (task, d) # fr \<Rightarrow>
          if d > max_depth then
            Inr (s\<lparr>frontier := fr,
                   results := results s @ [skipped_marker (description task)]\<rparr>)
          else
            (case execute llm_call task (memory s) (env s) of
               Inl e \<Rightarrow> Inl e
             | Inr (res, mem', w') \<Rightarrow>
                 (case result_fixed res of
                    Inl e \<Rightarrow> Inl e
                  | Inr fixed \<Rightarrow>
                      if truthy fixed then
                        (let v = \<lparr>task_id = ''verify-'' @ task_id task,
                                  description = ''verify fix'', depth = d + 1,
                                  priority = 5, metadata = []\<rparr>
                         in Inr \<lparr>frontier = (v, d + 1) # fr, results = results s @ [res],
                                 memory = mem', env = w'\<rparr>)
                      else
                        Inr \<lparr>frontier = fr, results = results s @ [res],
                             memory = mem', env = w'\<rparr>)))"

text \<open>
  The loop ends: a task at depth \<open>d\<close> can only put a task at depth \<open>d + 1\<close> on the
  frontier, and only when \<open>d\<close> is within the bound.
\<close>

definition hrm_weight :: "int \<Rightarrow> ('t \<times> int) list \<Rightarrow> nat" where
  "hrm_weight max_depth fr = sum_list (map (\<lambda>td. Suc (nat (max_depth + 1 - snd td))) fr)"

lemma hrm_body_decreases:
  assumes "frontier s \<noteq> []" and "hrm_body max_depth llm_call s = Inr s'"
  shows "hrm_weight max_depth (frontier s') < hrm_weight max_depth (frontier s)"
proof -
  obtain task d fr where fr: "frontier s = (task, d) # fr"
    using assms(1) by (cases "frontier s") auto
  show ?thesis
  proof (cases "d > max_depth")
    case True
    with assms(2) fr show ?thesis
      by (auto simp: hrm_body_def hrm_weight_def)
  next
    case False
    then have "nat (max_depth + 1 - (d + 1)) < nat (max_depth + 1 - d)" by simp
    with False assms(2) fr show ?thesis
      by (auto simp: hrm_body_def hrm_weight_def Let_def split: sum.splits prod.splits if_splits)
  qed
qed

function hrm_loop :: "int \<Rightarrow> llm_hook \<Rightarrow> (Task, Memory) run_state \<Rightarrow> py_error + (Task, Memory) run_state" where
  "hrm_loop max_depth llm_call s =
     (if frontier s = [] then Inr s
      else (case hrm_body max_depth llm_call s of
              Inl e \<Rightarrow> Inl e
            | Inr s' \<Rightarrow> hrm_loop max_depth llm_call s'))"
  by pat_completeness auto
termination
  by (relation "measure (\<lambda>(max_depth, llm_call, s). hrm_weight max_depth (frontier s))")
     (auto dest: hrm_body_decreases)

declare hrm_loop.simps [simp del]

text \<open>
  \<open>HRM.run\<close>, with \<open>self.max_depth\<close>, the worker's hook and the memory as arguments. It
  returns the result list, or the exception that escaped.
\<close>

definition hrm_run :: "int \<Rightarrow> llm_hook \<Rightarrow> processed_input \<Rightarrow> Memory \<Rightarrow> world \<Rightarrow> py_error + (pyval list \<times> Memory \<times> world)" where
  "hrm_run max_depth llm_call processed mem w =
     (let (pl, w1) = plan processed w
      in case hrm_loop max_depth llm_call
                \<lparr>frontier = map (\<lambda>t. (t, 1)) pl, results = [], memory = mem, env = w1\<rparr> of
           Inl e \<Rightarrow> Inl e
         | Inr s \<Rightarrow>
             (let (item, mem', w') =
                    Memory_write ''last_results'' (PList (results s)) False (memory s) (env s)
              in Inr (results s, mem', w')))"

section \<open>alan\_app/alan\_core\_engine.py: Memory\<close>

record EMemoryItem =
  e_id :: string
  timestamp :: rat
  e_kind :: string
  e_content :: pyval
  score :: rat

record EMemory =
  short_term :: "EMemoryItem list"
  long_term :: "(string \<times> EMemoryItem) list"

definition engine_write :: "string \<Rightarrow> pyval \<Rightarrow> bool \<Rightarrow> EMemory \<Rightarrow> world \<Rightarrow> EMemoryItem \<times> EMemory \<times> world" where
  "engine_write knd cont to_long mem w =
     (let (u, w1) = uuid4 w;
          (t, w2) = time_time w1;
          item = \<lparr>e_id = u, timestamp = t, e_kind = knd, e_content = cont, score = 1\<rparr>
      in if to_long then
           (item, mem\<lparr>long_term := AList.update u item (long_term mem)\<rparr>, w2)
         else
           (let s = short_term mem @ [item];
                s' = (if length s > 100 then tl s else s)
            in (item, mem\<lparr>short_term := s'\<rparr>, w2)))"





section \<open>alan\_app/alan\_core\_engine.py: Worker and AlanCore\<close>

definition engine_execute_result :: "ETask \<Rightarrow> pyval" where
  "engine_execute_result task =
     (let d = edescription task
      in if py_in ''scaffold'' d then
           PDict [(''files'', PList [PStr ''README.md'', PStr ''src/'', PStr ''alan_core/''])]
         else if py_in ''core modules'' d then
           PDict [(''modules'',
                   PList [PStr ''planner'', PStr ''worker'', PStr ''memory'', PStr ''io''])]
         else if py_in ''tests'' d then
           PDict [(''tests'', PList [PStr ''test_basic_flow.py''])]
         else if py_in ''reproduce'' d then
           PDict [(''status'', PStr ''reproduced sample input'')]
         else if py_in ''apply fix'' d then
           PDict [(''status'', PStr ''fix applied'')]
         else if py_in ''analyze'' d then
           PDict [(''analysis'', PStr ''short analysis summary'')]
         else if py_in ''respond'' d then
           PDict [(''response'', PStr (''Here'' @ [CHR 0x27] @ ''s a helpful answer.''))]
         else PDict [(''echo'', PStr d)])"

definition engine_execute :: "ETask \<Rightarrow> EMemory \<Rightarrow> world \<Rightarrow> pyval \<times> EMemory \<times> world" where
  "engine_execute task mem w =
     (let (t0, w1) = time_time w;
          result = engine_execute_result task;
          (item, mem', w2) =
             engine_write ''task_result''
               (PDict [(''task'', PStr (edescription task)), (''result'', result)])
               False mem w1;
          (t1, w3) = time_time w2
      in (PDict [(''task_id'', PStr (etask_id task)),
                 (''description'', PStr (edescription task)),
                 (''result'', result),
                 (''time'', PFloat (t1 - t0))],
          mem', w3))"

text \<open>\<open>for s in sub: frontier.insert(0, (s, depth+1))\<close>.\<close>

definition insert_front :: "'t list \<Rightarrow> int \<Rightarrow> ('t \<times> int) list \<Rightarrow> ('t \<times> int) list" where
  "insert_front sub d fr = foldl (\<lambda>f s. (s, d) # f) fr sub"

text \<open>One iteration of the \<open>while frontier:\<close> loop of \<open>AlanCore.process\<close>.\<close>

definition engine_body :: "int \<Rightarrow> (ETask, EMemory) run_state \<Rightarrow> (ETask, EMemory) run_state" where
  "engine_body max_depth s =
     (case frontier s of
        [] \<Rightarrow> s
      | (task, d) # fr \<Rightarrow>
          if d > max_depth then
            s\<lparr>frontier := fr,
              results := results s @ [skipped_marker (edescription task)]\<rparr>
          else
            (let (exec_result, mem', w') = engine_execute task (memory s) (env s)
             in if py_in ''scaffold'' (edescription task) \<and> d < max_depth then
                  (let (sub, w'') = new_etasks [(''create README'', d + 1),
                                               (''create src folder'', d + 1)] w'
                   in \<lparr>frontier = insert_front sub (d + 1) fr,
                       results = results s @ [exec_result], memory = mem', env = w''\<rparr>)
                else
                  \<lparr>frontier = fr, results = results s @ [exec_result],
                   memory = mem', env = w'\<rparr>))"

text \<open>
  The loop ends: only a task below the bound spawns, and its two children are one
  level deeper.
\<close>

definition engine_weight :: "int \<Rightarrow> ('t \<times> int) list \<Rightarrow> nat" where
  "engine_weight max_depth fr = sum_list (map (\<lambda>td. 3 ^ nat (max_depth - snd td)) fr)"

lemma insert_front_rev: "insert_front sub d fr = rev (map (\<lambda>s. (s, d)) sub) @ fr"
  unfolding insert_front_def by (induction sub arbitrary: fr) auto

lemma new_etasks_two:
  "new_etasks [(a, da), (b, db)] w =
     ([\<lparr>etask_id = uuid_seq w (uuid_calls w), edescription = a, edepth = da, emetadata = []\<rparr>,
       \<lparr>etask_id = uuid_seq w (Suc (uuid_calls w)), edescription = b, edepth = db,
        emetadata = []\<rparr>],
      w\<lparr>uuid_calls := Suc (Suc (uuid_calls w))\<rparr>)"
  by (simp add: new_etask_def uuid4_def)

lemma engine_body_decreases:
  assumes "frontier s \<noteq> []"
  shows "engine_weight max_depth (frontier (engine_body max_depth s))
           < engine_weight max_depth (frontier s)"
proof -
  obtain task d fr where fr: "frontier s = (task, d) # fr"
    using assms by (cases "frontier s") auto
  have pos: "0 < (3::nat) ^ nat (max_depth - d)" by simp
  show ?thesis
  proof (cases "d < max_depth")
    case True
    then have "nat (max_depth - d) = Suc (nat (max_depth - (d + 1)))" by simp
    then have "2 * (3::nat) ^ nat (max_depth - (d + 1)) < 3 ^ nat (max_depth - d)" by simp
    with True fr show ?thesis
      by (simp add: engine_body_def engine_weight_def new_etasks_two insert_front_rev
            split: prod.splits)
  next
    case False
    with fr pos show ?thesis
      by (simp add: engine_body_def engine_weight_def split: prod.splits)
  qed
qed

function engine_loop :: "int \<Rightarrow> (ETask, EMemory) run_state \<Rightarrow> (ETask, EMemory) run_state" where
  "engine_loop max_depth s =
     (if frontier s = [] then s else engine_loop max_depth (engine_body max_depth s))"
  by pat_completeness auto
termination
  by (relation "measure (\<lambda>(max_depth, s). engine_weight max_depth (frontier s))")
     (auto intro: engine_body_decreases)

declare engine_loop.simps [simp del]

text \<open>The processed input as the dict it is.\<close>

definition input_dict :: "processed_input \<Rightarrow> pyval" where
  "input_dict processed =
     PDict ((case inp_raw processed of Some r \<Rightarrow> [(''raw'', PStr r)] | None \<Rightarrow> [])
          @ (case inp_text processed of Some t \<Rightarrow> [(''text'', PStr t)] | None \<Rightarrow> [])
          @ (case inp_intent processed of Some i \<Rightarrow> [(''intent'', PStr i)] | None \<Rightarrow> [])
          @ [(''tokens'', PList (map PStr (inp_tokens processed)))])"

text \<open>
  \<open>AlanCore.process\<close> from the processed input on, with \<open>self.max_depth\<close> and the
  memory as arguments; it returns the result list that the renderer is given.
\<close>

definition engine_process :: "int \<Rightarrow> processed_input \<Rightarrow> EMemory \<Rightarrow> world \<Rightarrow> pyval list \<times> EMemory \<times> world" where
  "engine_process max_depth processed mem w =
     (let (item0, mem1, w1) = engine_write ''user_input'' (input_dict processed) False mem w;
          (tasks, w2) = engine_plan processed w1;
          s = engine_loop max_depth
                \<lparr>frontier = map (\<lambda>t. (t, 1)) tasks, results = [], memory = mem1, env = w2\<rparr>;
          (item, mem', w') =
             engine_write ''last_results'' (PList (results s)) False (memory s) (env s)
      in (results s, mem', w'))"

section \<open>Notions used in the statements\<close>

text \<open>
  The task a record of the result list is about: the \<open>description\<close> of an execution
  result, the \<open>task\<close> of a skipped marker.
\<close>

definition record_task :: "pyval \<Rightarrow> pyval" where
  "record_task r = dict_get r ''description'' (dict_get r ''task'' PNone)"

text \<open>The follow-up task that \<open>HRM.run\<close> builds for a task popped at depth \<open>d\<close>.\<close>

definition verify_task :: "Task \<Rightarrow> int \<Rightarrow> Task" where
  "verify_task task d =
     \<lparr>task_id = ''verify-'' @ task_id task, description = ''verify fix'', depth = d + 1,
      priority = 5, metadata = []\<rparr>"

text \<open>A task with all its fields but the identifier, which is drawn afresh at each call.\<close>

definition forget_id :: "Task \<Rightarrow> Task" where
  "forget_id t = t\<lparr>task_id := []\<rparr>"

definition forget_eid :: "ETask \<Rightarrow> ETask" where
  "forget_eid t = t\<lparr>etask_id := []\<rparr>"

text \<open>
  A sequence of \<open>write\<close> calls on one memory, all short-term or all long-term, with
  the items the calls return.
\<close>

fun write_all :: "bool \<Rightarrow> (string \<times> pyval) list \<Rightarrow> Memory \<Rightarrow> world \<Rightarrow> MemoryItem list \<times> Memory \<times> world" where
  "write_all to_long [] mem w = ([], mem, w)"
| "write_all to_long ((k, c) # r) mem w =
     (let (item, mem1, w1) = Memory_write k c to_long mem w;
          (items, mem2, w2) = write_all to_long r mem1 w1
      in (item # items, mem2, w2))"

fun engine_write_all :: "bool \<Rightarrow> (string \<times> pyval) list \<Rightarrow> EMemory \<Rightarrow> world \<Rightarrow> EMemoryItem list \<times> EMemory \<times> world" where
  "engine_write_all to_long [] mem w = ([], mem, w)"
| "engine_write_all to_long ((k, c) # r) mem w =
     (let (item, mem1, w1) = engine_write k c to_long mem w;
          (items, mem2, w2) = engine_write_all to_long r mem1 w1
      in (item # items, mem2, w2))"

text \<open>The MemoryItem fields an entry of the store carries.\<close>

fun entry_item :: "entry \<Rightarrow> MemoryItem" where
  "entry_item (AsDict it) = it"
| "entry_item (AsObject it) = it"

text \<open>\<open>N\<close> long-term writes, a flush, and a fresh Memory over the file.\<close>

definition reloaded :: "(string \<times> pyval) list \<Rightarrow> Memory \<Rightarrow> world \<Rightarrow> Memory" where
  "reloaded ws mem w =
     (let (items, mem', w') = write_all True ws mem w
      in Memory_init (flush mem' w'))"







section \<open>Concrete inputs\<close>

text \<open>
  A world whose identifiers are pairwise different (\<open>u\<close>, \<open>uu\<close>, \<open>uuu\<close>, ...), whose
  clock advances by one second per reading, and where no persistence file exists.
\<close>

definition demo_world :: world where
  "demo_world =
     \<lparr>uuid_seq = (\<lambda>n. replicate (Suc n) CHR ''u''), uuid_calls = 0,
      time_seq = (\<lambda>n. of_nat n), time_calls = 0, disk = Absent\<rparr>"

definition create_input :: processed_input where
  "create_input =
     \<lparr>inp_raw = None, inp_intent = Some ''create'', inp_text = Some ''Create a new project'',
      inp_tokens = [''Create'', ''a'', ''new'', ''project'']\<rparr>"

definition hello_input :: processed_input where
  "hello_input =
     \<lparr>inp_raw = None, inp_intent = Some ''general'', inp_text = Some ''hello'',
      inp_tokens = [''hello'']\<rparr>"

definition deep_task :: Task where
  "deep_task =
     \<lparr>task_id = ''t5'', description = ''summarise'', depth = 5, priority = 5, metadata = []\<rparr>"

definition deep_etask :: ETask where
  "deep_etask = \<lparr>etask_id = ''t5'', edescription = ''summarise'', edepth = 5, emetadata = []\<rparr>"

definition analyze_task :: Task where
  "analyze_task =
     \<lparr>task_id = ''t1'', description = ''analyze'', depth = 1, priority = 5, metadata = []\<rparr>"

text \<open>A hook that raises on every call.\<close>

definition raising_hook :: "string \<Rightarrow> py_error + pyval" where
  "raising_hook d = Inl (HookRaised ''boom'')"

definition empty_EMemory :: EMemory where
  "empty_EMemory = \<lparr>short_term = [], long_term = []\<rparr>"

text \<open>Loop states with nothing queued and nothing recorded yet.\<close>

definition demo_state :: "(Task, Memory) run_state" where
  "demo_state =
     \<lparr>frontier = [], results = [], memory = Memory_init demo_world, env = demo_world\<rparr>"

definition demo_estate :: "(ETask, EMemory) run_state" where
  "demo_estate = \<lparr>frontier = [], results = [], memory = empty_EMemory, env = demo_world\<rparr>"

text \<open>A world whose persistence file holds one item, as a flush wrote it.\<close>

definition saved_world :: world where
  "saved_world =
     demo_world\<lparr>disk := Document [(''id1'', Wellformed \<lparr>item_id = ''id1'', ts = 0, kind = ''note'',
                                                   content = PStr ''remember the milk''\<rparr>)]\<rparr>"

definition tuple_writes :: "(string \<times> pyval) list" where
  "tuple_writes = [(''pair'', PTuple [PInt 1, PInt 2])]"

definition set_writes :: "(string \<times> pyval) list" where
  "set_writes = [(''tags'', PSet [PStr ''a''])]"

definition json_writes :: "(string \<times> pyval) list" where
  "json_writes = [(''note'', PStr ''remember the milk''), (''fact'', PList [PInt 1, PBool True])]"







section \<open>Planner\<close>

lemma lower_Nil: "lower [] = []"
  by (simp add: lower_def)

lemma lower_Cons: "lower (c # cs) = lower_char c # lower cs"
  by (simp add: lower_def)

text \<open>
  C3, as stated, fails: \<open>decompose\<close> gives its subtasks the constant depth 1, so for a
  parent at depth 5 their depth is not 6.
\<close>

theorem decompose_depth_counterexample:
  "map depth (fst (decompose deep_task demo_world)) = [1] \<and> depth deep_task + 1 = 6
   \<and> map edepth (fst (engine_decompose deep_etask demo_world)) = [1, 1]
   \<and> edepth deep_etask + 1 = 6"
  by (simp add: decompose_def engine_decompose_def deep_task_def deep_etask_def lower_Nil
        lower_Cons lower_char_def new_task_def new_etask_def uuid4_def demo_world_def)

text \<open>
  C3, amended: for every input task, both planners' \<open>decompose\<close> return a non-empty
  sequence of tasks, each with a non-empty description and with depth 1 (the parent's
  depth plus one for the depth-0 root that \<open>plan\<close> passes in).
\<close>

theorem decompose_nonempty_depth_one:
  "fst (decompose task w) \<noteq> []
   \<and> (\<forall>t \<in> set (fst (decompose task w)). description t \<noteq> [] \<and> depth t = 1)
   \<and> fst (engine_decompose etask w) \<noteq> []
   \<and> (\<forall>t \<in> set (fst (engine_decompose etask w)). edescription t \<noteq> [] \<and> edepth t = 1)"
  by (auto simp: decompose_def engine_decompose_def new_task_def new_etask_def uuid4_def Let_def)

theorem decompose_nonempty_depth_one_witness:
  "hd (fst (decompose deep_task demo_world)) \<in> set (fst (decompose deep_task demo_world))
   \<and> description (hd (fst (decompose deep_task demo_world))) \<noteq> []
   \<and> depth (hd (fst (decompose deep_task demo_world))) = 1
   \<and> hd (fst (engine_decompose deep_etask demo_world))
        \<in> set (fst (engine_decompose deep_etask demo_world))
   \<and> edescription (hd (fst (engine_decompose deep_etask demo_world))) \<noteq> []
   \<and> edepth (hd (fst (engine_decompose deep_etask demo_world))) = 1"
proof -
  note th = decompose_nonempty_depth_one [of deep_task demo_world deep_etask]
  have a: "hd (fst (decompose deep_task demo_world)) \<in> set (fst (decompose deep_task demo_world))"
    using th by simp
  have b: "hd (fst (engine_decompose deep_etask demo_world))
             \<in> set (fst (engine_decompose deep_etask demo_world))"
    using th by simp
  from a b th show ?thesis by blast
qed

text \<open>
  C9, as stated, fails: every task carries a fresh \<open>uuid4\<close> identifier, so two
  invocations of \<open>plan\<close> on the same input record, one after the other, return tasks
  that differ in their \<open>id\<close> field.
\<close>

theorem plan_twice_counterexample:
  "fst (plan create_input demo_world)
     \<noteq> fst (plan create_input (snd (plan create_input demo_world)))"
  by (simp add: plan_def decompose_def create_input_def lower_Nil lower_Cons lower_char_def
        new_task_def uuid4_def demo_world_def)

text \<open>
  C9, amended: two invocations of \<open>plan\<close> on the same input record, in whatever state
  of the identifier source, yield sequences of tasks of the same length that agree,
  position by position, in every field except the freshly drawn identifier.
\<close>

theorem plan_deterministic_up_to_id:
  "map forget_id (fst (plan processed w1)) = map forget_id (fst (plan processed w2))
   \<and> map forget_eid (fst (engine_plan processed w1))
       = map forget_eid (fst (engine_plan processed w2))"
proof -
  have core: "map forget_id (fst (decompose t1 v1)) = map forget_id (fst (decompose t2 v2))"
    if "description t1 = description t2" for t1 t2 :: Task and v1 v2
    using that by (simp add: decompose_def Let_def new_task_def uuid4_def forget_id_def)
  have eng: "map forget_eid (fst (engine_decompose t1 v1))
               = map forget_eid (fst (engine_decompose t2 v2))"
    if "edescription t1 = edescription t2" for t1 t2 :: ETask and v1 v2
    using that by (simp add: engine_decompose_def Let_def new_etask_def uuid4_def forget_eid_def)
  show ?thesis
    by (auto simp: plan_def engine_plan_def uuid4_def Let_def intro!: core eng)
qed

section \<open>The run loops\<close>

lemma engine_body_skip:
  "max_depth < d \<Longrightarrow>
   engine_body max_depth (s\<lparr>frontier := (task, d) # fr\<rparr>)
     = s\<lparr>frontier := fr, results := results s @ [skipped_marker (edescription task)]\<rparr>"
  by (simp add: engine_body_def)

lemma hrm_body_skip:
  "max_depth < d \<Longrightarrow>
   hrm_body max_depth llm_call (s\<lparr>frontier := (task, d) # fr\<rparr>)
     = Inr (s\<lparr>frontier := fr, results := results s @ [skipped_marker (description task)]\<rparr>)"
  by (simp add: hrm_body_def)

lemma engine_loop_step:
  "frontier s \<noteq> [] \<Longrightarrow> engine_loop max_depth s = engine_loop max_depth (engine_body max_depth s)"
  by (subst engine_loop.simps) simp

lemma engine_loop_done: "frontier s = [] \<Longrightarrow> engine_loop max_depth s = s"
  by (subst engine_loop.simps) simp

lemma hrm_loop_step:
  "frontier s \<noteq> [] \<Longrightarrow>
   hrm_loop max_depth llm_call s
     = (case hrm_body max_depth llm_call s of
          Inl e \<Rightarrow> Inl e
        | Inr s' \<Rightarrow> hrm_loop max_depth llm_call s')"
  by (subst hrm_loop.simps) simp

lemma hrm_loop_done: "frontier s = [] \<Longrightarrow> hrm_loop max_depth llm_call s = Inr s"
  by (subst hrm_loop.simps) simp

lemma record_task_skipped: "record_task (skipped_marker d) = PStr d"
  by (simp add: record_task_def skipped_marker_def)

lemma record_task_engine_execute:
  "record_task (fst (engine_execute task mem w)) = PStr (edescription task)"
  by (simp add: record_task_def engine_execute_def Let_def split: prod.splits)

lemma engine_body_exec:
  assumes "d \<le> max_depth"
  shows "results (engine_body max_depth (s\<lparr>frontier := (task, d) # fr\<rparr>))
           = results s @ [fst (engine_execute task (memory s) (env s))]"
    and "\<not> (py_in ''scaffold'' (edescription task) \<and> d < max_depth) \<Longrightarrow>
         frontier (engine_body max_depth (s\<lparr>frontier := (task, d) # fr\<rparr>)) = fr"
    and "py_in ''scaffold'' (edescription task) \<Longrightarrow> d < max_depth \<Longrightarrow>
         map (\<lambda>p. (edescription (fst p), snd p))
             (frontier (engine_body max_depth (s\<lparr>frontier := (task, d) # fr\<rparr>)))
           = [(''create src folder'', d + 1), (''create README'', d + 1)]
             @ map (\<lambda>p. (edescription (fst p), snd p)) fr"
  using assms
  by (auto simp: engine_body_def new_etask_def uuid4_def insert_front_rev split: prod.splits)

lemma execute_result_dict:
  "execute_result llm_call task = Inr r \<Longrightarrow> \<exists>kvs. r = PDict kvs"
  by (auto simp: execute_result_def Let_def split: if_splits option.splits sum.splits)

lemma execute_Inr:
  assumes "execute_result llm_call task = Inr r"
  shows "\<exists>res mem' w'. execute llm_call task mem w = Inr (res, mem', w')
           \<and> record_task res = PStr (description task)
           \<and> result_fixed res = Inr (dict_get r ''fixed'' PNone)"
proof -
  obtain kvs where "r = PDict kvs" using execute_result_dict [OF assms] by blast
  with assms show ?thesis
    by (simp add: execute_def Let_def record_task_def result_fixed_def split: prod.splits)
qed

lemma execute_Inl:
  "execute_result llm_call task = Inl e \<Longrightarrow> execute llm_call task mem w = Inl e"
  by (simp add: execute_def Let_def split: prod.splits)

lemma hrm_body_exec:
  assumes "d \<le> max_depth" and "execute_result llm_call task = Inr r"
  shows "\<exists>s' res. hrm_body max_depth llm_call (s\<lparr>frontier := (task, d) # fr\<rparr>) = Inr s'
           \<and> results s' = results s @ [res] \<and> record_task res = PStr (description task)
           \<and> frontier s' = (if truthy (dict_get r ''fixed'' PNone)
                             then (verify_task task d, d + 1) # fr else fr)"
proof -
  obtain res mem' w' where ex: "execute llm_call task (memory s) (env s) = Inr (res, mem', w')"
      and rt: "record_task res = PStr (description task)"
      and rf: "result_fixed res = Inr (dict_get r ''fixed'' PNone)"
    using execute_Inr [OF assms(2)] by blast
  with assms(1) show ?thesis
    by (simp add: hrm_body_def verify_task_def Let_def)
qed

lemma hrm_body_raises:
  assumes "d \<le> max_depth" and "execute_result llm_call task = Inl e"
  shows "hrm_body max_depth llm_call (s\<lparr>frontier := (task, d) # fr\<rparr>) = Inl e"
  using assms by (simp add: hrm_body_def execute_Inl)

lemma engine_body_append:
  assumes "frontier s \<noteq> []"
  shows "engine_body D (s\<lparr>frontier := frontier s @ f2\<rparr>)
         = (engine_body D s)\<lparr>frontier := frontier (engine_body D s) @ f2\<rparr>"
proof -
  obtain task d fr where fr: "frontier s = (task, d) # fr"
    using assms by (cases "frontier s") auto
  then show ?thesis
    by (simp add: engine_body_def insert_front_rev new_etasks_two split: prod.splits)
qed

lemma engine_loop_append:
  "engine_loop D (s\<lparr>frontier := frontier s @ f2\<rparr>)
   = engine_loop D ((engine_loop D s)\<lparr>frontier := f2\<rparr>)"
proof (induction D s rule: engine_loop.induct)
  case (1 D s)
  show ?case
  proof (cases "frontier s = []")
    case True
    then show ?thesis by (simp add: engine_loop.simps [of D s])
  next
    case False
    have "engine_loop D (s\<lparr>frontier := frontier s @ f2\<rparr>)
          = engine_loop D (engine_body D (s\<lparr>frontier := frontier s @ f2\<rparr>))"
      using False by (subst engine_loop.simps) simp
    also have "\<dots> = engine_loop D ((engine_body D s)\<lparr>frontier := frontier (engine_body D s) @ f2\<rparr>)"
      using False by (simp add: engine_body_append)
    also have "\<dots> = engine_loop D ((engine_loop D (engine_body D s))\<lparr>frontier := f2\<rparr>)"
      using 1 False by simp
    also have "engine_loop D (engine_body D s) = engine_loop D s"
      using False by (simp add: engine_loop.simps [of D s])
    finally show ?thesis .
  qed
qed

lemma engine_scaffold_drain:
  assumes sc: "py_in ''scaffold'' (edescription task)" and lt: "d < max_depth"
  shows "map record_task (results (engine_loop max_depth (s\<lparr>frontier := [(task, d)]\<rparr>)))
           = map record_task (results s)
             @ [PStr (edescription task), PStr ''create src folder'', PStr ''create README'']"
proof -
  let ?s0 = "s\<lparr>frontier := [(task, d)]\<rparr>"
  let ?s1 = "engine_body max_depth ?s0"
  have le: "d \<le> max_depth" using lt by simp
  have r1: "map record_task (results ?s1) = map record_task (results s) @ [PStr (edescription task)]"
    by (simp add: engine_body_exec(1) [OF le] record_task_engine_execute)
  have "map (\<lambda>p. (edescription (fst p), snd p)) (frontier ?s1)
          = [(''create src folder'', d + 1), (''create README'', d + 1)]"
    using engine_body_exec(3) [OF le sc lt, where s = s and fr = "[]"] by simp
  then obtain c2 c1 where f1: "frontier ?s1 = [(c2, d + 1), (c1, d + 1)]"
      and d2: "edescription c2 = ''create src folder''"
      and d1: "edescription c1 = ''create README''"
    by (auto simp: map_eq_Cons_conv)
  have s1: "?s1 = ?s1\<lparr>frontier := (c2, d + 1) # [(c1, d + 1)]\<rparr>" using f1 by simp
  let ?s2 = "engine_body max_depth ?s1"
  have le1: "d + 1 \<le> max_depth" using lt by simp
  have ns2: "\<not> (py_in ''scaffold'' (edescription c2) \<and> d + 1 < max_depth)" by (simp add: d2)
  have ns1: "\<not> (py_in ''scaffold'' (edescription c1) \<and> d + 1 < max_depth)" by (simp add: d1)
  have r2: "map record_task (results ?s2)
              = map record_task (results s) @ [PStr (edescription task), PStr ''create src folder'']"
    using engine_body_exec(1) [OF le1, where s = ?s1 and task = c2 and fr = "[(c1, d + 1)]"] s1 r1
    by (simp add: record_task_engine_execute d2)
  have f2: "frontier ?s2 = [(c1, d + 1)]"
    using engine_body_exec(2) [OF le1 ns2, where s = ?s1 and fr = "[(c1, d + 1)]"] s1 by simp
  have s2: "?s2 = ?s2\<lparr>frontier := (c1, d + 1) # []\<rparr>" using f2 by simp
  let ?s3 = "engine_body max_depth ?s2"
  have r3: "map record_task (results ?s3)
              = map record_task (results s)
                @ [PStr (edescription task), PStr ''create src folder'', PStr ''create README'']"
    using engine_body_exec(1) [OF le1, where s = ?s2 and task = c1 and fr = "[]"] s2 r2
    by (simp add: record_task_engine_execute d1)
  have f3: "frontier ?s3 = []"
    using engine_body_exec(2) [OF le1 ns1, where s = ?s2 and fr = "[]"] s2 by simp
  have "engine_loop max_depth ?s0 = engine_loop max_depth ?s1"
    by (rule engine_loop_step) simp
  also have "\<dots> = engine_loop max_depth ?s2"
    by (rule engine_loop_step) (simp add: f1)
  also have "\<dots> = engine_loop max_depth ?s3"
    by (rule engine_loop_step) (simp add: f2)
  also have "\<dots> = ?s3"
    by (rule engine_loop_done) (rule f3)
  finally show ?thesis using r3 by simp
qed

lemma hrm_body_append:
  assumes "frontier s \<noteq> []"
  shows "hrm_body max_depth llm_call (s\<lparr>frontier := frontier s @ f2\<rparr>)
         = (case hrm_body max_depth llm_call s of
              Inl e \<Rightarrow> Inl e
            | Inr s' \<Rightarrow> Inr (s'\<lparr>frontier := frontier s' @ f2\<rparr>))"
proof -
  obtain task d fr where fr: "frontier s = (task, d) # fr"
    using assms by (cases "frontier s") auto
  then show ?thesis
    by (simp add: hrm_body_def Let_def split: prod.splits sum.splits)
qed

lemma hrm_loop_append:
  "hrm_loop max_depth llm_call (s\<lparr>frontier := frontier s @ f2\<rparr>)
   = (case hrm_loop max_depth llm_call s of
        Inl e \<Rightarrow> Inl e
      | Inr s' \<Rightarrow> hrm_loop max_depth llm_call (s'\<lparr>frontier := f2\<rparr>))"
proof (induction max_depth llm_call s rule: hrm_loop.induct)
  case (1 D llm s)
  show ?case
  proof (cases "frontier s = []")
    case True
    then show ?thesis by (simp add: hrm_loop_done)
  next
    case False
    show ?thesis
    proof (cases "hrm_body D llm s")
      case (Inl e)
      with False show ?thesis
        by (simp add: hrm_loop_step hrm_body_append)
    next
      case (Inr s')
      with False 1 [of s'] show ?thesis
        by (simp add: hrm_loop_step hrm_body_append)
    qed
  qed
qed

lemma engine_loop_cons:
  "engine_loop max_depth (s\<lparr>frontier := x # rest\<rparr>)
     = engine_loop max_depth ((engine_loop max_depth (s\<lparr>frontier := [x]\<rparr>))\<lparr>frontier := rest\<rparr>)"
  using engine_loop_append [of max_depth "s\<lparr>frontier := [x]\<rparr>" rest] by simp

lemma hrm_loop_cons:
  "hrm_loop max_depth llm_call (s\<lparr>frontier := x # rest\<rparr>)
     = (case hrm_loop max_depth llm_call (s\<lparr>frontier := [x]\<rparr>) of
          Inl e \<Rightarrow> Inl e
        | Inr s' \<Rightarrow> hrm_loop max_depth llm_call (s'\<lparr>frontier := rest\<rparr>))"
  using hrm_loop_append [of max_depth llm_call "s\<lparr>frontier := [x]\<rparr>" rest] by simp

lemma engine_body_results:
  "frontier s \<noteq> [] \<Longrightarrow> \<exists>r. results (engine_body max_depth s) = results s @ [r]"
  by (cases "frontier s") (auto simp: engine_body_def split: prod.splits)

lemma engine_loop_results: "\<exists>ys. results (engine_loop max_depth s) = results s @ ys"
proof (induction max_depth s rule: engine_loop.induct)
  case (1 D s)
  show ?case
  proof (cases "frontier s = []")
    case True
    then show ?thesis by (simp add: engine_loop_done)
  next
    case False
    from 1 [OF False] obtain ys where "results (engine_loop D (engine_body D s))
        = results (engine_body D s) @ ys" by blast
    moreover obtain r where "results (engine_body D s) = results s @ [r]"
      using engine_body_results [OF False] by blast
    ultimately show ?thesis using False by (simp add: engine_loop_step)
  qed
qed

lemma engine_loop_frontier: "frontier (engine_loop max_depth s) = []"
proof (induction max_depth s rule: engine_loop.induct)
  case (1 D s)
  then show ?case by (cases "frontier s = []") (simp_all add: engine_loop_done engine_loop_step)
qed

lemma hrm_body_results:
  "frontier s \<noteq> [] \<Longrightarrow> hrm_body max_depth llm_call s = Inr s' \<Longrightarrow>
   \<exists>r. results s' = results s @ [r]"
  by (cases "frontier s")
     (auto simp: hrm_body_def Let_def split: prod.splits sum.splits if_splits)

lemma hrm_loop_results:
  "hrm_loop max_depth llm_call s = Inr s' \<Longrightarrow> \<exists>ys. results s' = results s @ ys"
proof (induction max_depth llm_call s rule: hrm_loop.induct)
  case (1 D llm s)
  show ?case
  proof (cases "frontier s = []")
    case True
    with 1(2) show ?thesis by (simp add: hrm_loop_done)
  next
    case False
    with 1(2) obtain s1 where b: "hrm_body D llm s = Inr s1" and l: "hrm_loop D llm s1 = Inr s'"
      by (auto simp: hrm_loop_step split: sum.splits)
    from 1(1) [OF False b l] obtain ys where "results s' = results s1 @ ys" by blast
    moreover obtain r where "results s1 = results s @ [r]"
      using hrm_body_results [OF False b] by blast
    ultimately show ?thesis by simp
  qed
qed

lemma hrm_loop_frontier:
  "hrm_loop max_depth llm_call s = Inr s' \<Longrightarrow> frontier s' = []"
proof (induction max_depth llm_call s rule: hrm_loop.induct)
  case (1 D llm s)
  show ?case
  proof (cases "frontier s = []")
    case True
    with 1(2) show ?thesis by (auto simp: hrm_loop_done)
  next
    case False
    with 1(2) obtain s1 where b: "hrm_body D llm s = Inr s1" and l: "hrm_loop D llm s1 = Inr s'"
      by (auto simp: hrm_loop_step split: sum.splits)
    from 1(1) [OF False b l] show ?thesis .
  qed
qed

text \<open>Without a hook nothing in the loop can raise.\<close>

lemma execute_result_no_hook: "\<exists>r. execute_result None task = Inr r"
  by (simp add: execute_result_def Let_def)

lemma hrm_body_no_hook: "\<exists>s'. hrm_body max_depth None s = Inr s'"
proof (cases "frontier s")
  case Nil
  then show ?thesis by (simp add: hrm_body_def)
next
  case (Cons p fr)
  obtain task d where p: "p = (task, d)" by (cases p)
  have s: "s = s\<lparr>frontier := (task, d) # fr\<rparr>" using Cons p by simp
  show ?thesis
  proof (cases "max_depth < d")
    case True
    from hrm_body_skip [OF True, where llm_call = None and s = s and task = task and fr = fr] s
    show ?thesis by metis
  next
    case False
    then have le: "d \<le> max_depth" by simp
    obtain r where "execute_result None task = Inr r" using execute_result_no_hook by blast
    from hrm_body_exec [OF le this, where s = s and fr = fr] s show ?thesis by metis
  qed
qed

lemma hrm_loop_no_hook: "\<exists>s'. hrm_loop max_depth None s = Inr s'"
proof (induction max_depth "None :: llm_hook" s rule: hrm_loop.induct)
  case (1 D s)
  show ?case
  proof (cases "frontier s = []")
    case True
    then show ?thesis by (simp add: hrm_loop_done)
  next
    case False
    obtain s1 where b: "hrm_body D None s = Inr s1" using hrm_body_no_hook by blast
    from 1 [OF False b] b False show ?thesis by (simp add: hrm_loop_step)
  qed
qed

lemma engine_plain_drain:
  assumes le: "d \<le> max_depth"
      and ns: "\<not> (py_in ''scaffold'' (edescription task) \<and> d < max_depth)"
  shows "map record_task (results (engine_loop max_depth (s\<lparr>frontier := [(task, d)]\<rparr>)))
           = map record_task (results s) @ [PStr (edescription task)]"
proof -
  let ?s1 = "engine_body max_depth (s\<lparr>frontier := [(task, d)]\<rparr>)"
  have f1: "frontier ?s1 = []" using engine_body_exec(2) [OF le ns] by simp
  have "engine_loop max_depth (s\<lparr>frontier := [(task, d)]\<rparr>) = engine_loop max_depth ?s1"
    by (rule engine_loop_step) simp
  also have "\<dots> = ?s1" by (rule engine_loop_done) (rule f1)
  finally show ?thesis
    by (simp add: engine_body_exec(1) [OF le] record_task_engine_execute)
qed

lemma execute_reads_clock:
  "execute llm_call task mem w = Inr (res, mem', w') \<Longrightarrow> time_calls w' = time_calls w + 3"
  by (auto simp: execute_def Memory_write_def uuid4_def time_time_def Let_def
           split: sum.splits prod.splits)

text \<open>
  C1: whenever the pair at the front of the frontier has a depth above the bound, the
  iteration appends exactly the skipped marker of that task to the results, removes
  the pair and inserts nothing, and leaves memory and world untouched: the worker
  (which always reads the clock, \<open>execute_reads_clock\<close>) is not called. The run
  continues from that state. This holds in both run loops.
\<close>

theorem depth_bound_enforced:
  assumes "max_depth < d"
  shows "hrm_body max_depth llm_call (s\<lparr>frontier := (task, d) # fr\<rparr>)
           = Inr (s\<lparr>frontier := fr, results := results s @ [skipped_marker (description task)]\<rparr>)
         \<and> hrm_loop max_depth llm_call (s\<lparr>frontier := (task, d) # fr\<rparr>)
           = hrm_loop max_depth llm_call
               (s\<lparr>frontier := fr, results := results s @ [skipped_marker (description task)]\<rparr>)
         \<and> engine_body max_depth (e\<lparr>frontier := (etask, d) # efr\<rparr>)
           = e\<lparr>frontier := efr, results := results e @ [skipped_marker (edescription etask)]\<rparr>
         \<and> engine_loop max_depth (e\<lparr>frontier := (etask, d) # efr\<rparr>)
           = engine_loop max_depth
               (e\<lparr>frontier := efr, results := results e @ [skipped_marker (edescription etask)]\<rparr>)"
  using assms by (simp add: hrm_loop_step engine_loop_step hrm_body_skip engine_body_skip)

theorem depth_bound_enforced_witness:
  "(2::int) < 3
   \<and> hrm_body 2 None (demo_state\<lparr>frontier := [(deep_task, 3)]\<rparr>)
       = Inr (demo_state\<lparr>frontier := [], results := [skipped_marker ''summarise'']\<rparr>)
   \<and> engine_body 2 (demo_estate\<lparr>frontier := [(deep_etask, 3)]\<rparr>)
       = demo_estate\<lparr>frontier := [], results := [skipped_marker ''summarise'']\<rparr>"
proof -
  have h: "(2::int) < 3" by simp
  have r: "results demo_state = []" "results demo_estate = []"
    "description deep_task = ''summarise''" "edescription deep_etask = ''summarise''"
    by (simp_all add: demo_state_def demo_estate_def deep_task_def deep_etask_def)
  from depth_bound_enforced [OF h, where llm_call = None and s = demo_state and task = deep_task
      and fr = "[]" and e = demo_estate and etask = deep_etask and efr = "[]"] r h
  show ?thesis by simp
qed

lemma verify_fix_echo:
  "execute_result None (verify_task task d) = Inr (PDict [(''echo'', PStr ''verify fix'')])"
  by (simp add: execute_result_def verify_task_def lower_Nil lower_Cons lower_char_def)

lemma hrm_fix_drain:
  assumes le: "d \<le> max_depth"
      and fx: "execute_result None task = Inr (PDict [(''fixed'', PBool True)])"
  shows "\<exists>s'. hrm_loop max_depth None (s\<lparr>frontier := [(task, d)]\<rparr>) = Inr s'
           \<and> map record_task (results s')
               = map record_task (results s) @ [PStr (description task), PStr ''verify fix'']"
proof -
  let ?v = "verify_task task d"
  obtain s1 res where b1: "hrm_body max_depth None (s\<lparr>frontier := (task, d) # []\<rparr>) = Inr s1"
      and r1: "results s1 = results s @ [res]" and t1: "record_task res = PStr (description task)"
      and f1: "frontier s1 = [(?v, d + 1)]"
    using hrm_body_exec [OF le fx, where s = s and fr = "[]"] by auto
  have s1: "s1 = s1\<lparr>frontier := (?v, d + 1) # []\<rparr>" using f1 by simp
  have "\<exists>s2 r2. hrm_body max_depth None s1 = Inr s2 \<and> results s2 = results s1 @ [r2]
          \<and> record_task r2 = PStr ''verify fix'' \<and> frontier s2 = []"
  proof (cases "max_depth < d + 1")
    case True
    from hrm_body_skip [OF True, where llm_call = None and s = s1 and task = ?v and fr = "[]"]
    have "hrm_body max_depth None s1
            = Inr (s1\<lparr>frontier := [], results := results s1 @ [skipped_marker (description ?v)]\<rparr>)"
      using s1 by simp
    then show ?thesis
      by (simp add: record_task_skipped verify_task_def)
  next
    case False
    then have le1: "d + 1 \<le> max_depth" by simp
    have dv: "description ?v = ''verify fix''" by (simp add: verify_task_def)
    have eq: "hrm_body max_depth None s1
                = hrm_body max_depth None (s1\<lparr>frontier := (?v, d + 1) # []\<rparr>)"
      using s1 by simp
    from hrm_body_exec [OF le1 verify_fix_echo [of task d], where s = s1 and fr = "[]"]
    show ?thesis unfolding eq by (auto simp: dv)
  qed
  then obtain s2 r2 where b2: "hrm_body max_depth None s1 = Inr s2"
      and r2: "results s2 = results s1 @ [r2]" and t2: "record_task r2 = PStr ''verify fix''"
      and f2: "frontier s2 = []"
    by blast
  have "hrm_loop max_depth None (s\<lparr>frontier := [(task, d)]\<rparr>) = hrm_loop max_depth None s1"
    using b1 by (simp add: hrm_loop_step)
  also have "\<dots> = hrm_loop max_depth None s2"
    using b2 f1 by (simp add: hrm_loop_step)
  also have "\<dots> = Inr s2" by (rule hrm_loop_done) (rule f2)
  finally show ?thesis by (simp add: r1 r2 t1 t2)
qed

text \<open>
  C2 claims that spawned children go to the front of the frontier, that their records
  precede those of the pairs already queued, and that several children of one task
  keep, in the result list, the order in which they were spawned. The first two hold
  (\<open>engine_loop_cons\<close>, \<open>hrm_loop_cons\<close>, \<open>engine_scaffold_drain\<close>,
  \<open>hrm_fix_drain\<close>). The third does not: \<open>AlanCore.process\<close> spawns
  \<open>create README\<close> then \<open>create src folder\<close> and inserts each at index 0, so the
  run on the input \<open>Create a new project\<close> records them the other way round.
\<close>

theorem spawn_order_reversed:
  "map edescription (fst (new_etasks [(''create README'', 2), (''create src folder'', 2)] demo_world))
     = [''create README'', ''create src folder'']
   \<and> map record_task (fst (engine_process 2 create_input empty_EMemory demo_world))
     = [PStr ''scaffold project structure'', PStr ''create src folder'', PStr ''create README'',
        PStr ''create core modules'', PStr ''write basic tests'']"
proof -
  obtain item0 mem1 w1 where w: "engine_write ''user_input'' (input_dict create_input) False
      empty_EMemory demo_world = (item0, mem1, w1)" by (cases "engine_write ''user_input'' (input_dict create_input) False
      empty_EMemory demo_world") auto
  obtain tasks w2 where pl: "engine_plan create_input w1 = (tasks, w2)"
    by (cases "engine_plan create_input w1") auto
  have "map edescription (fst (engine_plan create_input w1))
          = [''scaffold project structure'', ''create core modules'', ''write basic tests'']"
    by (simp add: engine_plan_def engine_decompose_def create_input_def lower_Nil lower_Cons
          lower_char_def new_etask_def uuid4_def)
  then obtain t1 t2 t3 where ts: "tasks = [t1, t2, t3]"
      and d1: "edescription t1 = ''scaffold project structure''"
      and d2: "edescription t2 = ''create core modules''"
      and d3: "edescription t3 = ''write basic tests''"
    using pl by (auto simp: map_eq_Cons_conv)
  let ?s0 = "\<lparr>frontier = [], results = [], memory = mem1, env = w2\<rparr> :: (ETask, EMemory) run_state"
  let ?a = "engine_loop 2 (?s0\<lparr>frontier := [(t1, 1)]\<rparr>)"
  let ?b = "engine_loop 2 (?a\<lparr>frontier := [(t2, 1)]\<rparr>)"
  let ?c = "engine_loop 2 (?b\<lparr>frontier := [(t3, 1)]\<rparr>)"
  have ra: "map record_task (results ?a)
      = [PStr ''scaffold project structure'', PStr ''create src folder'', PStr ''create README'']"
    using engine_scaffold_drain [of t1 1 2 ?s0] by (simp add: d1)
  have rb: "map record_task (results ?b) = map record_task (results ?a) @ [PStr ''create core modules'']"
    using engine_plain_drain [of 1 2 t2 ?a] by (simp add: d2)
  have rc: "map record_task (results ?c) = map record_task (results ?b) @ [PStr ''write basic tests'']"
    using engine_plain_drain [of 1 2 t3 ?b] by (simp add: d3)
  have "engine_loop 2 \<lparr>frontier = map (\<lambda>t. (t, 1)) tasks, results = [], memory = mem1, env = w2\<rparr>
          = engine_loop 2 (?s0\<lparr>frontier := (t1, 1) # [(t2, 1), (t3, 1)]\<rparr>)"
    by (simp add: ts)
  also have "\<dots> = engine_loop 2 (?a\<lparr>frontier := (t2, 1) # [(t3, 1)]\<rparr>)"
    by (rule engine_loop_cons)
  also have "\<dots> = engine_loop 2 (?b\<lparr>frontier := [(t3, 1)]\<rparr>)"
    by (rule engine_loop_cons)
  finally have "map record_task (results (engine_loop 2
       \<lparr>frontier = map (\<lambda>t. (t, 1)) tasks, results = [], memory = mem1, env = w2\<rparr>))
     = [PStr ''scaffold project structure'', PStr ''create src folder'', PStr ''create README'',
        PStr ''create core modules'', PStr ''write basic tests'']"
    using ra rb rc by simp
  then have "map record_task (fst (engine_process 2 create_input empty_EMemory demo_world))
     = [PStr ''scaffold project structure'', PStr ''create src folder'', PStr ''create README'',
        PStr ''create core modules'', PStr ''write basic tests'']"
    by (simp add: engine_process_def w pl Let_def split: prod.splits)
  then show ?thesis by (simp add: new_etask_def uuid4_def)
qed

lemma run_shell_never_raises:
  "(\<exists>out. run_shell check_output cmd = PDict [(''stdout'', PStr out)])
   \<or> (\<exists>msg. run_shell check_output cmd = PDict [(''error'', PStr msg)])"
  by (cases "check_output cmd") (simp_all add: run_shell_def)

text \<open>
  C7 claims that every failure of an external capability is captured as an
  \<open>{error: message}\<close> result and that no exception escapes the worker. \<open>run_shell\<close>
  does capture every failure (\<open>run_shell_never_raises\<close>), but \<open>execute\<close> calls the
  hook outside any \<open>try\<close>: with a hook that raises, \<open>execute\<close> raises.
\<close>

theorem hook_exception_escapes_execute:
  "execute (Some raising_hook) analyze_task (Memory_init demo_world) demo_world
     = Inl (HookRaised ''boom'')"
  by (simp add: execute_Inl execute_result_def analyze_task_def raising_hook_def lower_Nil
        lower_Cons lower_char_def)

lemma hrm_run_no_hook:
  "\<exists>res mem' w'. hrm_run max_depth None processed mem w = Inr (res, mem', w')"
proof -
  obtain pl w1 where pl: "plan processed w = (pl, w1)"
    by (cases "plan processed w") auto
  obtain s where "hrm_loop max_depth None
      \<lparr>frontier = map (\<lambda>t. (t, 1)) pl, results = [], memory = mem, env = w1\<rparr> = Inr s"
    using hrm_loop_no_hook by blast
  then show ?thesis
    by (simp add: hrm_run_def pl split: prod.splits)
qed

text \<open>
  C6 claims that every run completes and returns a result list with one recorded
  outcome per task. The loops do end (\<open>hrm_loop\<close> and \<open>engine_loop\<close> are total and
  leave the frontier empty, and without a hook \<open>HRM.run\<close> always returns,
  \<open>hrm_run_no_hook\<close>), but with a hook that raises \<open>HRM.run\<close> returns no result list:
  the exception leaves the loop and the run.
\<close>

theorem hook_exception_aborts_run:
  "hrm_run 3 (Some raising_hook) hello_input (Memory_init demo_world) demo_world
     = Inl (HookRaised ''boom'')"
proof -
  obtain pl w1 where pl: "plan hello_input demo_world = (pl, w1)"
    by (cases "plan hello_input demo_world") auto
  have "map description (fst (plan hello_input demo_world)) = [''analyze'']"
    by (simp add: plan_def decompose_def hello_input_def lower_Nil lower_Cons lower_char_def
          new_task_def uuid4_def)
  then obtain t where t: "pl = [t]" and d: "description t = ''analyze''"
    using pl by (auto simp: map_eq_Cons_conv)
  have ex: "execute_result (Some raising_hook) t = Inl (HookRaised ''boom'')"
    by (simp add: execute_result_def d raising_hook_def lower_Nil lower_Cons lower_char_def)
  let ?s = "\<lparr>frontier = [], results = [], memory = Memory_init demo_world, env = w1\<rparr>
             :: (Task, Memory) run_state"
  have "hrm_body 3 (Some raising_hook) (?s\<lparr>frontier := (t, 1) # []\<rparr>) = Inl (HookRaised ''boom'')"
    by (rule hrm_body_raises [OF _ ex]) simp
  then have "hrm_loop 3 (Some raising_hook)
       \<lparr>frontier = [(t, 1)], results = [], memory = Memory_init demo_world, env = w1\<rparr>
     = Inl (HookRaised ''boom'')"
    by (simp add: hrm_loop_step)
  then show ?thesis by (simp add: hrm_run_def pl t)
qed

section \<open>Memory\<close>

lemma fifo_step:
  assumes "length xs \<le> b" and "0 < b"
  shows "(if length (xs @ [x]) > b then tl (xs @ [x]) else xs @ [x])
           = drop (length xs + 1 - b) (xs @ [x])"
proof (cases "length xs = b")
  case True
  then have "length xs + 1 - b = 1" by simp
  with True show ?thesis by (simp add: drop_Suc del: drop_append tl_append2)
next
  case False
  with assms have "length xs + 1 - b = 0" by simp
  with False assms show ?thesis by simp
qed

lemma drop_window:
  "drop (length (drop (length xs - b) xs) + n - b) (drop (length xs - b) xs @ ys)
     = drop (length xs + n - b) (xs @ ys)" if "n = length ys" for b :: nat
  using that by (cases "length xs \<le> b") (auto simp: min_def add.commute)

lemma Memory_write_short:
  "short (fst (snd (Memory_write k c False mem w)))
     = (let s = short mem @ [AsDict (fst (Memory_write k c False mem w))]
        in if length s > 200 then tl s else s)"
  by (simp add: Memory_write_def uuid4_def time_time_def Let_def)

lemma engine_write_short:
  "short_term (fst (snd (engine_write k c False mem w)))
     = (let s = short_term mem @ [fst (engine_write k c False mem w)]
        in if length s > 100 then tl s else s)"
  by (simp add: engine_write_def uuid4_def time_time_def Let_def)

lemma write_all_short:
  assumes "length (short mem) \<le> 200"
  shows "short (fst (snd (write_all False ws mem w)))
           = drop (length (short mem) + length ws - 200)
               (short mem @ map AsDict (fst (write_all False ws mem w)))
         \<and> length (fst (write_all False ws mem w)) = length ws"
  using assms
proof (induction ws arbitrary: mem w)
  case Nil
  then show ?case by simp
next
  case (Cons x ws)
  obtain k c where x: "x = (k, c)" by (cases x)
  obtain item mem1 w1 where wr: "Memory_write k c False mem w = (item, mem1, w1)"
    by (cases "Memory_write k c False mem w") auto
  have s1: "short mem1 = drop (length (short mem) + 1 - 200) (short mem @ [AsDict item])"
    using Memory_write_short [of k c mem w] fifo_step [OF Cons.prems, of "AsDict item"]
    by (simp add: wr Let_def)
  then have l1: "length (short mem1) \<le> 200" using Cons.prems by simp
  note ih = Cons.IH [OF l1, of w1]
  have "short (fst (snd (write_all False (x # ws) mem w)))
          = short (fst (snd (write_all False ws mem1 w1)))"
    by (simp add: x wr split: prod.splits)
  also have "\<dots> = drop (length (short mem1) + length ws - 200)
                      (short mem1 @ map AsDict (fst (write_all False ws mem1 w1)))"
    using ih by simp
  also have "\<dots> = drop (length (short mem @ [AsDict item]) + length ws - 200)
                      ((short mem @ [AsDict item]) @ map AsDict (fst (write_all False ws mem1 w1)))"
    unfolding s1
    using drop_window [of "length ws" "map AsDict (fst (write_all False ws mem1 w1))"
        "short mem @ [AsDict item]" 200] ih
    by simp
  finally show ?case using ih by (simp add: x wr split: prod.splits)
qed

lemma engine_write_all_short:
  assumes "length (short_term mem) \<le> 100"
  shows "short_term (fst (snd (engine_write_all False ws mem w)))
           = drop (length (short_term mem) + length ws - 100)
               (short_term mem @ fst (engine_write_all False ws mem w))
         \<and> length (fst (engine_write_all False ws mem w)) = length ws"
  using assms
proof (induction ws arbitrary: mem w)
  case Nil
  then show ?case by simp
next
  case (Cons x ws)
  obtain k c where x: "x = (k, c)" by (cases x)
  obtain item mem1 w1 where wr: "engine_write k c False mem w = (item, mem1, w1)"
    by (cases "engine_write k c False mem w") auto
  have s1: "short_term mem1 = drop (length (short_term mem) + 1 - 100) (short_term mem @ [item])"
    using engine_write_short [of k c mem w] fifo_step [OF Cons.prems, of item]
    by (simp add: wr Let_def)
  then have l1: "length (short_term mem1) \<le> 100" using Cons.prems by simp
  note ih = Cons.IH [OF l1, of w1]
  have "short_term (fst (snd (engine_write_all False (x # ws) mem w)))
          = short_term (fst (snd (engine_write_all False ws mem1 w1)))"
    by (simp add: x wr split: prod.splits)
  also have "\<dots> = drop (length (short_term mem1) + length ws - 100)
                      (short_term mem1 @ fst (engine_write_all False ws mem1 w1))"
    using ih by simp
  also have "\<dots> = drop (length (short_term mem @ [item]) + length ws - 100)
                      ((short_term mem @ [item]) @ fst (engine_write_all False ws mem1 w1))"
    unfolding s1
    using drop_window [of "length ws" "fst (engine_write_all False ws mem1 w1)"
        "short_term mem @ [item]" 100] ih
    by simp
  finally show ?case using ih by (simp add: x wr split: prod.splits)
qed

text \<open>
  C5: starting from a short-term partition within its bound \<open>B\<close> (200 in
  alan\_core/memory.py, 100 in the engine; a new memory is empty), after any sequence
  of short-term writes the partition is the last \<open>B\<close> elements of the old partition
  followed by the written items, in order, so its size never exceeds \<open>B\<close>; and when
  more than \<open>B\<close> items were written it holds exactly the \<open>B\<close> most recent of them.
\<close>

theorem fifo_eviction:
  assumes "length (short mem) \<le> 200" and "length (short_term emem) \<le> 100"
  shows "length (fst (write_all False ws mem w)) = length ws
         \<and> short (fst (snd (write_all False ws mem w)))
             = drop (length (short mem) + length ws - 200)
                 (short mem @ map AsDict (fst (write_all False ws mem w)))
         \<and> length (short (fst (snd (write_all False ws mem w)))) \<le> 200
         \<and> (200 < length ws \<longrightarrow>
              short (fst (snd (write_all False ws mem w)))
                = drop (length ws - 200) (map AsDict (fst (write_all False ws mem w)))
              \<and> length (short (fst (snd (write_all False ws mem w)))) = 200)
         \<and> length (fst (engine_write_all False ws emem w)) = length ws
         \<and> short_term (fst (snd (engine_write_all False ws emem w)))
             = drop (length (short_term emem) + length ws - 100)
                 (short_term emem @ fst (engine_write_all False ws emem w))
         \<and> length (short_term (fst (snd (engine_write_all False ws emem w)))) \<le> 100
         \<and> (100 < length ws \<longrightarrow>
              short_term (fst (snd (engine_write_all False ws emem w)))
                = drop (length ws - 100) (fst (engine_write_all False ws emem w))
              \<and> length (short_term (fst (snd (engine_write_all False ws emem w)))) = 100)"
proof -
  note a = write_all_short [OF assms(1), of ws w]
  note b = engine_write_all_short [OF assms(2), of ws w]
  have a2: "length (short (fst (snd (write_all False ws mem w)))) \<le> 200"
    using a assms(1) by simp
  have b2: "length (short_term (fst (snd (engine_write_all False ws emem w)))) \<le> 100"
    using b assms(2) by simp
  have a3: "200 < length ws \<longrightarrow>
              short (fst (snd (write_all False ws mem w)))
                = drop (length ws - 200) (map AsDict (fst (write_all False ws mem w)))
              \<and> length (short (fst (snd (write_all False ws mem w)))) = 200"
    using a by auto
  have b3: "100 < length ws \<longrightarrow>
              short_term (fst (snd (engine_write_all False ws emem w)))
                = drop (length ws - 100) (fst (engine_write_all False ws emem w))
              \<and> length (short_term (fst (snd (engine_write_all False ws emem w)))) = 100"
    using b by auto
  from a b a2 b2 a3 b3 show ?thesis by blast
qed

theorem fifo_eviction_witness:
  "length (short (Memory_init demo_world)) \<le> 200 \<and> length (short_term empty_EMemory) \<le> 100
   \<and> 200 < length (replicate 201 (''note'', PNone))
   \<and> length (short (fst (snd (write_all False (replicate 201 (''note'', PNone))
                                 (Memory_init demo_world) demo_world)))) = 200
   \<and> length (short_term (fst (snd (engine_write_all False (replicate 201 (''note'', PNone))
                                 empty_EMemory demo_world)))) = 100"
proof -
  have h: "length (short (Memory_init demo_world)) \<le> 200" "length (short_term empty_EMemory) \<le> 100"
    by (simp_all add: Memory_init_def empty_EMemory_def)
  from fifo_eviction [OF h, of "replicate 201 (''note'', PNone)" demo_world] h
  show ?thesis by simp
qed

lemma retrieve_loop_object:
  "AsObject it \<in> set pool \<Longrightarrow> retrieve_loop py_str q pool res = Inl AttributeError"
  by (induction py_str q pool res rule: retrieve_loop.induct) auto

lemma retrieve_raises_on_loaded:
  assumes "(k, AsObject it) \<in> set (long mem)" and "q \<noteq> []"
  shows "retrieve py_str (Some q) limit mem = Inl AttributeError"
proof -
  have "AsObject it \<in> set (short mem @ map snd (long mem))"
    using assms(1) by force
  then show ?thesis
    using assms(2) by (simp add: retrieve_def retrieve_loop_object del: set_append)
qed

text \<open>
  C10 claims that \<open>retrieve\<close> with a non-empty query returns normally on a Memory
  whose long-term map was loaded from a file. \<open>__init__\<close> stores the loaded items as
  MemoryItem objects, and \<open>retrieve\<close> calls the dict method \<open>get\<close> on every item of
  the pool, so after loading a file with an item it raises \<open>AttributeError\<close>.
\<close>

theorem retrieve_after_load_raises:
  "long (Memory_init saved_world)
     = [(''id1'', AsObject \<lparr>item_id = ''id1'', ts = 0, kind = ''note'',
                            content = PStr ''remember the milk''\<rparr>)]
   \<and> retrieve py_str (Some ''milk'') 10 (Memory_init saved_world) = Inl AttributeError"
  by (simp add: Memory_init_def saved_world_def demo_world_def retrieve_def)

lemma update_new_key: "k \<notin> fst ` set l \<Longrightarrow> AList.update k v l = l @ [(k, v)]"
  by (induction l) auto

lemma Memory_write_facts:
  "item_id (fst (Memory_write k c lt mem w)) = uuid_seq w (uuid_calls w)"
  "kind (fst (Memory_write k c lt mem w)) = k"
  "content (fst (Memory_write k c lt mem w)) = c"
  "uuid_seq (snd (snd (Memory_write k c lt mem w))) = uuid_seq w"
  "uuid_calls (snd (snd (Memory_write k c lt mem w))) = Suc (uuid_calls w)"
  "long (fst (snd (Memory_write k c True mem w)))
     = AList.update (uuid_seq w (uuid_calls w)) (AsDict (fst (Memory_write k c True mem w))) (long mem)"
  by (simp_all add: Memory_write_def uuid4_def time_time_def flush_def Let_def)

lemma write_all_long:
  assumes "distinct (map (uuid_seq w) [uuid_calls w ..< uuid_calls w + length ws])"
      and "set (map (uuid_seq w) [uuid_calls w ..< uuid_calls w + length ws])
             \<inter> fst ` set (long mem) = {}"
  shows "long (fst (snd (write_all True ws mem w)))
           = long mem @ map (\<lambda>it. (item_id it, AsDict it)) (fst (write_all True ws mem w))
         \<and> map item_id (fst (write_all True ws mem w))
           = map (uuid_seq w) [uuid_calls w ..< uuid_calls w + length ws]
         \<and> map kind (fst (write_all True ws mem w)) = map fst ws
         \<and> map content (fst (write_all True ws mem w)) = map snd ws"
  using assms
proof (induction ws arbitrary: mem w)
  case Nil
  then show ?case by simp
next
  case (Cons x ws)
  obtain k c where x: "x = (k, c)" by (cases x)
  obtain item mem1 w1 where wr: "Memory_write k c True mem w = (item, mem1, w1)"
    by (cases "Memory_write k c True mem w") auto
  let ?n = "uuid_calls w"
  have upt: "[?n ..< ?n + length (x # ws)] = ?n # [Suc ?n ..< Suc ?n + length ws]"
    by (simp add: upt_rec)
  have proj: "item = fst (Memory_write k c True mem w)"
      "mem1 = fst (snd (Memory_write k c True mem w))"
      "w1 = snd (snd (Memory_write k c True mem w))"
    by (simp_all add: wr)
  have f: "item_id item = uuid_seq w ?n" "kind item = k" "content item = c"
      "uuid_seq w1 = uuid_seq w" "uuid_calls w1 = Suc ?n"
      "long mem1 = AList.update (uuid_seq w ?n) (AsDict item) (long mem)"
    unfolding proj by (simp_all add: Memory_write_facts)
  have p2: "uuid_seq w ?n \<notin> fst ` set (long mem)"
      "set (map (uuid_seq w) [Suc ?n ..< Suc ?n + length ws]) \<inter> fst ` set (long mem) = {}"
    using Cons.prems(2) unfolding upt by auto
  have p1: "uuid_seq w ?n \<notin> set (map (uuid_seq w) [Suc ?n ..< Suc ?n + length ws])"
      "distinct (map (uuid_seq w) [Suc ?n ..< Suc ?n + length ws])"
    using Cons.prems(1) unfolding upt by auto
  have l1: "long mem1 = long mem @ [(uuid_seq w ?n, AsDict item)]"
    using f(6) update_new_key [OF p2(1)] by simp
  have d1: "distinct (map (uuid_seq w1) [uuid_calls w1 ..< uuid_calls w1 + length ws])"
    using p1(2) by (simp add: f)
  have i1: "set (map (uuid_seq w1) [uuid_calls w1 ..< uuid_calls w1 + length ws])
      \<inter> fst ` set (long mem1) = {}"
    using p1(1) p2(2) by (auto simp: f(4,5) l1)
  note ih = Cons.IH [OF d1 i1]
  obtain items mem2 w2 where wa: "write_all True ws mem1 w1 = (items, mem2, w2)"
    by (cases "write_all True ws mem1 w1") auto
  from ih have A: "long mem2 = long mem1 @ map (\<lambda>it. (item_id it, AsDict it)) items"
      and B: "map item_id items = map (uuid_seq w) [Suc ?n ..< Suc ?n + length ws]"
      and C: "map kind items = map fst ws" "map content items = map snd ws"
    by (simp_all add: wa f(4,5) del: upt_Suc)
  have res: "write_all True (x # ws) mem w = (item # items, mem2, w2)"
    by (simp add: x wr wa)
  show ?case
    unfolding upt res by (simp add: A B C l1 f(1,2,3) x del: upt_Suc)
qed

lemma load_entries_wellformed:
  assumes "distinct (map item_id items)"
      and "item_id ` set items \<inter> fst ` set l = {}"
  shows "load_entries (map (\<lambda>it. (item_id it, Wellformed it)) items) l
           = l @ map (\<lambda>it. (item_id it, AsObject it)) items"
  using assms
proof (induction items arbitrary: l)
  case Nil
  then show ?case by simp
next
  case (Cons it items)
  have new: "item_id it \<notin> fst ` set l" using Cons.prems(2) by auto
  have "item_id ` set items \<inter> fst ` set (l @ [(item_id it, AsObject it)]) = {}"
    using Cons.prems by auto
  with Cons.IH [of "l @ [(item_id it, AsObject it)]"] Cons.prems(1) new
  show ?case by (simp add: update_new_key)
qed

lemma flush_disk:
  assumes "long mem = map (\<lambda>it. (item_id it, AsDict it)) items"
      and "\<forall>it \<in> set items. json_ok (content it) \<and> json_reload (content it) = content it"
  shows "disk (flush mem w) = Document (map (\<lambda>it. (item_id it, Wellformed it)) items)"
  using assms by (simp add: flush_def list_all_iff)

text \<open>
  C8, as stated, fails for contents that JSON does not carry: a tuple comes back as a
  list, and a set makes the flush fail part-way (swallowed), after which the fresh
  Memory finds no readable file and its long-term map is empty.
\<close>

theorem persistence_round_trip_counterexample:
  "map content (fst (write_all True tuple_writes (Memory_init demo_world) demo_world))
     = [PTuple [PInt 1, PInt 2]]
   \<and> map (content \<circ> entry_item \<circ> snd)
         (long (reloaded tuple_writes (Memory_init demo_world) demo_world))
     = [PList [PInt 1, PInt 2]]
   \<and> length (fst (write_all True set_writes (Memory_init demo_world) demo_world)) = 1
   \<and> long (reloaded set_writes (Memory_init demo_world) demo_world) = []"
  by (simp add: reloaded_def tuple_writes_def set_writes_def Memory_init_def demo_world_def
        Memory_write_def uuid4_def time_time_def flush_def Let_def)

text \<open>
  C8, amended: starting from a Memory with an empty long-term map, \<open>N\<close> long-term
  writes whose contents JSON carries unchanged and whose drawn identifiers are pairwise
  different, followed by a flush; a fresh Memory over the flushed file then has a
  long-term map of exactly \<open>N\<close> entries, keyed by the written items' identifiers in
  order, each holding the written item, so with equal kind and content.
\<close>

theorem persistence_round_trip:
  assumes "long mem = []"
      and "\<forall>kc \<in> set ws. json_ok (snd kc) \<and> json_reload (snd kc) = snd kc"
      and "distinct (map (uuid_seq w) [uuid_calls w ..< uuid_calls w + length ws])"
  shows "long (reloaded ws mem w)
           = map (\<lambda>it. (item_id it, AsObject it)) (fst (write_all True ws mem w))
         \<and> length (long (reloaded ws mem w)) = length ws
         \<and> distinct (map fst (long (reloaded ws mem w)))
         \<and> map (kind \<circ> entry_item \<circ> snd) (long (reloaded ws mem w)) = map fst ws
         \<and> map (content \<circ> entry_item \<circ> snd) (long (reloaded ws mem w)) = map snd ws"
proof -
  obtain items mem' w' where wa: "write_all True ws mem w = (items, mem', w')"
    by (cases "write_all True ws mem w") auto
  have "set (map (uuid_seq w) [uuid_calls w ..< uuid_calls w + length ws])
          \<inter> fst ` set (long mem) = {}"
    using assms(1) by simp
  from write_all_long [OF assms(3) this]
  have lg: "long mem' = map (\<lambda>it. (item_id it, AsDict it)) items"
      and ids: "map item_id items = map (uuid_seq w) [uuid_calls w ..< uuid_calls w + length ws]"
      and kc: "map kind items = map fst ws" "map content items = map snd ws"
    by (simp_all add: wa assms(1))
  have len: "length items = length ws"
    using kc(1) by (metis length_map)
  have dist: "distinct (map item_id items)"
    using ids assms(3) by simp
  have "set (map content items) = snd ` set ws" using kc(2) by simp
  then have ok: "\<forall>it \<in> set items. json_ok (content it) \<and> json_reload (content it) = content it"
    using assms(2) by (metis (no_types, lifting) image_iff list.set_map)
  have "disk (flush mem' w') = Document (map (\<lambda>it. (item_id it, Wellformed it)) items)"
    by (rule flush_disk [OF lg ok])
  then have "long (Memory_init (flush mem' w'))
               = load_entries (map (\<lambda>it. (item_id it, Wellformed it)) items) []"
    by (simp add: Memory_init_def)
  also have "\<dots> = map (\<lambda>it. (item_id it, AsObject it)) items"
    using load_entries_wellformed [OF dist, of "[]"] by simp
  finally have r: "long (reloaded ws mem w) = map (\<lambda>it. (item_id it, AsObject it)) items"
    by (simp add: reloaded_def wa)
  have m1: "map fst (map (\<lambda>it. (item_id it, AsObject it)) items) = map item_id items"
    by simp
  have m2: "map (kind \<circ> entry_item \<circ> snd) (map (\<lambda>it. (item_id it, AsObject it)) items)
              = map kind items"
    "map (content \<circ> entry_item \<circ> snd) (map (\<lambda>it. (item_id it, AsObject it)) items)
              = map content items"
    by simp_all
  show ?thesis
    unfolding r using len dist kc by (simp only: m1 m2 wa fst_conv length_map simp_thms)
qed

theorem persistence_round_trip_witness:
  "long (Memory_init demo_world) = []
   \<and> json_ok (PStr ''remember the milk'') \<and> json_ok (PList [PInt 1, PBool True])
   \<and> distinct (map (uuid_seq demo_world) [0, 1])
   \<and> length (long (reloaded json_writes (Memory_init demo_world) demo_world)) = 2
   \<and> map (kind \<circ> entry_item \<circ> snd) (long (reloaded json_writes (Memory_init demo_world) demo_world))
       = [''note'', ''fact'']
   \<and> map (content \<circ> entry_item \<circ> snd)
         (long (reloaded json_writes (Memory_init demo_world) demo_world))
       = [PStr ''remember the milk'', PList [PInt 1, PBool True]]"
proof -
  have h1: "long (Memory_init demo_world) = []"
    by (simp add: Memory_init_def demo_world_def)
  have h2: "\<forall>kc \<in> set json_writes. json_ok (snd kc) \<and> json_reload (snd kc) = snd kc"
    by (simp add: json_writes_def)
  have upt: "[uuid_calls demo_world ..< uuid_calls demo_world + length json_writes] = [0, 1]"
    by (simp add: demo_world_def json_writes_def upt_rec)
  have h3': "distinct (map (uuid_seq demo_world) [0, 1])"
    by (simp add: demo_world_def)
  then have h3: "distinct (map (uuid_seq demo_world)
      [uuid_calls demo_world ..< uuid_calls demo_world + length json_writes])"
    by (simp only: upt)
  note th = persistence_round_trip [OF h1 h2 h3]
  from th have a: "length (long (reloaded json_writes (Memory_init demo_world) demo_world))
      = length json_writes" by blast
  from th have b: "map (kind \<circ> entry_item \<circ> snd)
      (long (reloaded json_writes (Memory_init demo_world) demo_world)) = map fst json_writes"
    by blast
  from th have c: "map (content \<circ> entry_item \<circ> snd)
      (long (reloaded json_writes (Memory_init demo_world) demo_world)) = map snd json_writes"
    by blast
  have v: "length json_writes = 2" "map fst json_writes = [''note'', ''fact'']"
      "map snd json_writes = [PStr ''remember the milk'', PList [PInt 1, PBool True]]"
      "json_ok (PStr ''remember the milk'')" "json_ok (PList [PInt 1, PBool True])"
    by (simp_all add: json_writes_def)
  from a b c h1 h3' v show ?thesis by (simp only: simp_thms)
qed




















end
